theory Spec2Isabelle
  imports Main
begin

section \<open>The survey coder of SurveyData/VRGroup/Script.py\<close>

text \<open>
  The script finds the one raw CSV export beside it, picks the VR or the Video
  configuration from the file's name, scores every participant's pre-test and post-test
  answers against the answer key of that configuration and writes one record per
  participant to \<^verbatim>\<open>coded_results.csv\<close>.

  Python strings are modelled as lists of code points below 256 (\<^typ>\<open>string\<close>),
  dictionaries as association lists in insertion order, exceptions as the left summand of
  a sum type.
\<close>

subsection \<open>Values, exceptions, dictionaries\<close>

datatype error =
    FileNotFoundError
  | RuntimeError
  | KeyError string
  | TypeError
  | ParserError
  | OSError
  | UnicodeEncodeError

text \<open>
  A cell of the loaded DataFrame. \<open>CNaN\<close> is the missing value that
  \<^verbatim>\<open>read_csv\<close> puts where the file has no entry. A float other than NaN is carried by
  the text that \<^verbatim>\<open>str\<close> prints for it; the formatting of floats is not modelled.
\<close>

datatype cell =
    CStr string
  | CNaN
  | CInt int
  | CFloat string
  | CBool bool

text \<open>
  The values that a record holds: an \<^verbatim>\<open>int\<close> or a \<^verbatim>\<open>str\<close> made by the script, a
  cell of the table, or a tuple of cells (the index label of a table with several index
  columns).
\<close>

datatype pyval = VInt int | VStr string | VCell cell | VTuple "cell list"

type_synonym pydict = "(string \<times> pyval) list"

text \<open>\<^verbatim>\<open>d[k] = v\<close>: an existing key keeps its place, a new key goes to the end.\<close>

fun setitem :: "(string \<times> 'v) list \<Rightarrow> string \<Rightarrow> 'v \<Rightarrow> (string \<times> 'v) list" where
  "setitem [] k v = [(k, v)]"
| "setitem ((k', v') # d) k v =
     (if k' = k then (k, v) # d else (k', v') # setitem d k v)"

text \<open>\<^verbatim>\<open>d[k]\<close>: a missing key raises KeyError.\<close>

definition getitem :: "(string \<times> 'v) list \<Rightarrow> string \<Rightarrow> error + 'v" where
  "getitem d k = (case map_of d k of None \<Rightarrow> Inl (KeyError k) | Some v \<Rightarrow> Inr v)"

text \<open>
  \<^verbatim>\<open>rec[k]\<close> read as an operand of integer arithmetic (\<^verbatim>\<open>+=\<close> and \<^verbatim>\<open>-\<close> in the
  script). The script only ever reads keys under which it has stored an \<^verbatim>\<open>int\<close>.
\<close>

definition getint :: "pydict \<Rightarrow> string \<Rightarrow> error + int" where
  "getint d k =
     (case getitem d k of
        Inl e \<Rightarrow> Inl e
      | Inr (VInt i) \<Rightarrow> Inr i
      | Inr _ \<Rightarrow> Inl TypeError)"

subsection \<open>String operations\<close>

text \<open>The code points below 256 for which \<^verbatim>\<open>str.isspace\<close> holds.\<close>

definition isspace :: "char \<Rightarrow> bool" where
  "isspace c \<longleftrightarrow>
     c \<in> set [CHR 0x09, CHR 0x0A, CHR 0x0B, CHR 0x0C, CHR 0x0D,
               CHR 0x1C, CHR 0x1D, CHR 0x1E, CHR 0x1F, CHR 0x20, CHR 0x85, CHR 0xA0]"

definition strip :: "string \<Rightarrow> string" where
  "strip s = rev (dropWhile isspace (rev (dropWhile isspace s)))"

definition startswith :: "string \<Rightarrow> string \<Rightarrow> bool" where
  "startswith s p \<longleftrightarrow> take (length p) s = p"

definition endswith :: "string \<Rightarrow> string \<Rightarrow> bool" where
  "endswith s p \<longleftrightarrow> drop (length s - length p) s = p \<and> length p \<le> length s"

text \<open>\<^verbatim>\<open>sub in s\<close> on strings: \<open>sub\<close> occurs in \<open>s\<close> as a contiguous substring.\<close>

fun contains :: "string \<Rightarrow> string \<Rightarrow> bool" where
  "contains [] sub = (sub = [])"
| "contains (c # s) sub = (startswith (c # s) sub \<or> contains s sub)"

definition digit :: "nat \<Rightarrow> char" where
  "digit d = char_of (48 + d)"

function str_nat :: "nat \<Rightarrow> string" where
  "str_nat n = (if n < 10 then [digit n] else str_nat (n div 10) @ [digit (n mod 10)])"
  by pat_completeness auto
termination
  by (relation "measure (\<lambda>n. n)") auto

text \<open>\<^verbatim>\<open>str(x)\<close> of a cell.\<close>

fun py_str :: "cell \<Rightarrow> string" where
  "py_str (CStr s) = s"
| "py_str CNaN = ''nan''"
| "py_str (CInt i) = (if i < 0 then ''-'' @ str_nat (nat (- i)) else str_nat (nat i))"
| "py_str (CFloat s) = s"
| "py_str (CBool b) = (if b then ''True'' else ''False'')"

definition int_of_bool :: "bool \<Rightarrow> int" where
  "int_of_bool b = (if b then 1 else 0)"

subsection \<open>The loaded table and the group configurations\<close>

text \<open>
  A row of \<^verbatim>\<open>df.iterrows()\<close> is indexed by the column names of the table; the script
  reads \<^verbatim>\<open>row[col]\<close> only under the guard \<^verbatim>\<open>col in df.columns\<close>, so a row is a
  function that is only ever applied to names in \<open>columns\<close>. The cells are
  those of the row as \<^verbatim>\<open>iterrows\<close> yields it. In the same way \<open>index\<close> gives the
  index label of each position and is only ever applied to the positions of \<open>rows\<close>.
  The label is the position itself when \<^verbatim>\<open>read_csv\<close> finds no index column, and
  comes from the leading fields of the data lines when these have more fields than the
  header.
\<close>

type_synonym row = "string \<Rightarrow> cell"

record table =
  columns :: "string list"
  index :: "nat \<Rightarrow> pyval"
  rows :: "row list"

text \<open>The index of a table without an index column.\<close>

definition RangeIndex :: "nat \<Rightarrow> pyval" where
  "RangeIndex pos = VInt (int pos)"

record GroupConfig =
  group :: string
  PRE_COLS :: "string list"
  POST_COLS :: "string list"
  ANSWER_KEY :: "(string \<times> string) list"

definition BG_COLS :: "(string \<times> string) list" where
  "BG_COLS =
     [(''Q1'', ''cs_background''),
      (''Q2'', ''nn_course''),
      (''Q3_1'', ''derivative_familiarity'')]"

definition VR_config :: GroupConfig where
  "VR_config = \<lparr>
     group = ''VR'',
     PRE_COLS = [''Q16'', ''Q17'', ''Q18'', ''Q19'', ''Q20'', ''Q21'',
                 ''Q22'', ''Q23'', ''Q24'', ''Q25'', ''Q26'', ''Q27''],
     POST_COLS = [''Q87'', ''Q88'', ''Q89'', ''Q90'', ''Q91'', ''Q92'',
                  ''Q93'', ''Q94'', ''Q95'', ''Q96'', ''Q97'', ''Q98''],
     ANSWER_KEY =
       [(''Q16'', ''One entire pass over all training samples''),
        (''Q17'', ''6 4 3 1 5 2''),
        (''Q18'', ''A function measuring prediction error''),
        (''Q19'', ''Inputs are weighted and summed through the network''),
        (''Q20'', ''Inputs are weighted and summed through the network''),
        (''Q21'', ''Combining the outputs of previous neurons to generate the result of the network.''),
        (''Q22'', ''Determine the influence strength of an input on the neuron's output''),
        (''Q23'', ''Computes how errors change with respect to weights and biases''),
        (''Q24'', ''It provides feedback on how far predictions are from actual targets''),
        (''Q25'', ''2,3''),
        (''Q26'', ''To enable the activation function to shift left or right''),
        (''Q27'', ''Bias is learned during training like weights''),
        (''Q87'', ''One entire pass over all training samples''),
        (''Q88'', ''6 4 3 1 5 2''),
        (''Q89'', ''A function measuring prediction error''),
        (''Q90'', ''Inputs are weighted and summed through the network''),
        (''Q91'', ''Inputs are weighted and summed through the network''),
        (''Q92'', ''Combining the outputs of previous neurons to generate the result of the network.''),
        (''Q93'', ''Determine the influence strength of an input on the neuron's output''),
        (''Q94'', ''Computes how errors change with respect to weights and biases''),
        (''Q95'', ''It provides feedback on how far predictions are from actual targets''),
        (''Q96'', ''2,3''),
        (''Q97'', ''To enable the activation function to shift left or right''),
        (''Q98'', ''Bias is learned during training like weights'')] \<rparr>"

definition Video_config :: GroupConfig where
  "Video_config = \<lparr>
     group = ''Video'',
     PRE_COLS = [''Q48'', ''Q49'', ''Q50'', ''Q51'', ''Q52'', ''Q53'',
                 ''Q54'', ''Q55'', ''Q56'', ''Q57'', ''Q52.1'', ''Q55.1''],
     POST_COLS = [''Q71'', ''Q72'', ''Q73'', ''Q74'', ''Q75'', ''Q76'',
                  ''Q77'', ''Q78'', ''Q79'', ''Q80'', ''Q81'', ''Q84''],
     ANSWER_KEY =
       [(''Q48'', ''One entire pass over all training samples''),
        (''Q49'', ''6 4 3 1 5 2''),
        (''Q50'', ''A function measuring prediction error''),
        (''Q51'', ''Inputs are weighted and summed through the network''),
        (''Q52'', ''Inputs are weighted and summed through the network''),
        (''Q53'', ''Combining the outputs of previous neurons to generate the result of the network.''),
        (''Q54'', ''Determine the influence strength of an input on the neuron's output''),
        (''Q55'', ''Computes how errors change with respect to weights and biases''),
        (''Q56'', ''It provides feedback on how far predictions are from actual targets''),
        (''Q57'', ''2,3''),
        (''Q52.1'', ''To enable the activation function to shift left or right''),
        (''Q55.1'', ''Bias is learned during training like weights''),
        (''Q71'', ''One entire pass over all training samples''),
        (''Q72'', ''6 4 3 1 5 2''),
        (''Q73'', ''A function measuring prediction error''),
        (''Q74'', ''Inputs are weighted and summed through the network''),
        (''Q75'', ''Inputs are weighted and summed through the network''),
        (''Q76'', ''Combining the outputs of previous neurons to generate the result of the network.''),
        (''Q77'', ''Determine the influence strength of an input on the neuron's output''),
        (''Q78'', ''Computes how errors change with respect to weights and biases''),
        (''Q79'', ''It provides feedback on how far predictions are from actual targets''),
        (''Q80'', ''2,3''),
        (''Q81'', ''To enable the activation function to shift left or right''),
        (''Q84'', ''Bias is learned during training like weights'')] \<rparr>"

text \<open>Lines 44 and 77: \<^verbatim>\<open>if "VR" in file_name: ... else: ...\<close>\<close>

definition select_config :: "string \<Rightarrow> GroupConfig" where
  "select_config file_name =
     (if contains file_name ''VR'' then VR_config else Video_config)"

subsection \<open>Scoring one participant\<close>

text \<open>Lines 117 to 119: the background columns that the table has are copied, renamed.\<close>

fun bg_loop :: "table \<Rightarrow> row \<Rightarrow> (string \<times> string) list \<Rightarrow> pydict \<Rightarrow> pydict" where
  "bg_loop df row [] rec = rec"
| "bg_loop df row ((col, newname) # items) rec =
     (if col \<in> set (columns df)
      then bg_loop df row items (setitem rec newname (VCell (row col)))
      else bg_loop df row items rec)"

text \<open>
  Lines 123 to 128 and 133 to 138: one pass over a list of scored columns, threading the
  record and the running score.
\<close>

fun score_loop ::
  "GroupConfig \<Rightarrow> table \<Rightarrow> row \<Rightarrow> string list \<Rightarrow> pydict \<Rightarrow> int \<Rightarrow> error + (pydict \<times> int)"
where
  "score_loop cfg df row [] rec score = Inr (rec, score)"
| "score_loop cfg df row (col # cols) rec score =
     (if col \<in> set (columns df) then
        (let answer = strip (py_str (row col)) in
         if answer \<notin> set [''nan'', ''NaN'', ''''] then
           (case getitem (ANSWER_KEY cfg) col of
              Inl e \<Rightarrow> Inl e
            | Inr expected \<Rightarrow>
                (let rec' = setitem rec col (VInt (int_of_bool (answer = expected))) in
                 case getint rec' col of
                   Inl e \<Rightarrow> Inl e
                 | Inr flag \<Rightarrow> score_loop cfg df row cols rec' (score + flag)))
         else score_loop cfg df row cols rec score)
      else score_loop cfg df row cols rec score)"

text \<open>Lines 114 to 141: the body of the loop over the rows.\<close>

definition code_row :: "GroupConfig \<Rightarrow> table \<Rightarrow> pyval \<Rightarrow> row \<Rightarrow> error + pydict" where
  "code_row cfg df idx row =
     (let rec0 = bg_loop df row BG_COLS [(''id'', idx), (''group'', VStr (group cfg))] in
      case score_loop cfg df row (PRE_COLS cfg) rec0 0 of
        Inl e \<Rightarrow> Inl e
      | Inr (rec1, pre_score) \<Rightarrow>
     (let rec2 = setitem rec1 ''pre_score'' (VInt pre_score) in
      case score_loop cfg df row (POST_COLS cfg) rec2 0 of
        Inl e \<Rightarrow> Inl e
      | Inr (rec3, post_score) \<Rightarrow>
     (let rec4 = setitem rec3 ''post_score'' (VInt post_score) in
      case getint rec4 ''post_score'' of
        Inl e \<Rightarrow> Inl e
      | Inr a \<Rightarrow>
     (case getint rec4 ''pre_score'' of
        Inl e \<Rightarrow> Inl e
      | Inr b \<Rightarrow> Inr (setitem rec4 ''gain'' (VInt (a - b)))))))"

text \<open>
  Lines 111 to 142: the loop over \<^verbatim>\<open>df.iterrows()\<close>, which yields for each
  position the index label of the table at that position and the row; \<open>pos\<close> counts
  the positions.
\<close>

fun iterrows_loop ::
  "GroupConfig \<Rightarrow> table \<Rightarrow> nat \<Rightarrow> row list \<Rightarrow> pydict list \<Rightarrow> error + pydict list"
where
  "iterrows_loop cfg df pos [] records = Inr records"
| "iterrows_loop cfg df pos (row # rest) records =
     (let idx = index df pos in
      case code_row cfg df idx row of
        Inl e \<Rightarrow> Inl e
      | Inr rec \<Rightarrow> iterrows_loop cfg df (Suc pos) rest (records @ [rec]))"

definition code_table :: "GroupConfig \<Rightarrow> table \<Rightarrow> error + pydict list" where
  "code_table cfg df = iterrows_loop cfg df 0 (rows df) []"

subsection \<open>The whole run\<close>

text \<open>
  What the script sees of its surroundings: the directory that holds it
  (\<^verbatim>\<open>os.path.dirname(os.path.abspath(__file__))\<close>), and the answers of the library
  calls it makes: the paths that \<^verbatim>\<open>glob.glob\<close> returns for a pattern, what
  \<^verbatim>\<open>pd.read_csv\<close> returns for a path (a table, or the exception it raises), and
  whether \<^verbatim>\<open>to_csv\<close> and the two \<^verbatim>\<open>print\<close> calls raise. The matching of glob
  patterns, the parsing and printing of CSV text and the encoding of the console are not
  modelled: every answer that the library can give is an answer of some world.
\<close>

record world =
  script_dir :: string
  glob :: "string \<Rightarrow> string list"
  read_csv :: "string \<Rightarrow> error + table"
  to_csv :: "string \<Rightarrow> pydict list \<Rightarrow> error option"
  print_saved :: "string \<Rightarrow> error option"
  print_head :: "pydict list \<Rightarrow> error option"

datatype outcome = Done | Raised error

text \<open>
  The calls by which a run acts on its surroundings, in the order in which it makes them:
  \<^verbatim>\<open>coded_df.to_csv(out_path, index=False)\<close>, the notice with the output path, and
  the preview \<^verbatim>\<open>print(coded_df.head())\<close>.
\<close>

datatype call =
    To_csv string "pydict list"
  | Print_saved string
  | Print_head "pydict list"

text \<open>\<^verbatim>\<open>os.path.join(a, b)\<close> and \<^verbatim>\<open>os.path.basename(p)\<close> of \<^verbatim>\<open>posixpath\<close>.\<close>

definition path_join :: "string \<Rightarrow> string \<Rightarrow> string" where
  "path_join a b =
     (if startswith b ''/'' then b
      else if a = [] \<or> endswith a ''/'' then a @ b
      else a @ ''/'' @ b)"

definition basename :: "string \<Rightarrow> string" where
  "basename p = rev (takeWhile (\<lambda>c. c \<noteq> CHR ''/'') (rev p))"

text \<open>Lines 21 and 22.\<close>

definition csv_files :: "world \<Rightarrow> string list" where
  "csv_files w =
     filter (\<lambda>f. \<not> startswith (basename f) ''coded_'')
       (glob w (path_join (script_dir w) ''*.csv''))"

text \<open>Lines 18 to 144: the value of \<^verbatim>\<open>records\<close> after the loop over the rows.\<close>

definition coded_records :: "world \<Rightarrow> error + pydict list" where
  "coded_records w =
     (if csv_files w = [] then Inl FileNotFoundError
      else if length (csv_files w) > 1 then Inl RuntimeError
      else
        (let csv_path = csv_files w ! 0 in
         case read_csv w csv_path of
           Inl e \<Rightarrow> Inl e
         | Inr df \<Rightarrow>
             (let file_name = basename csv_path in
              code_table (select_config file_name) df)))"

text \<open>
  Lines 18 to 151: the outcome of the run and the calls it has made. A call that raises is
  the last one of the run.
\<close>

definition run :: "world \<Rightarrow> outcome \<times> call list" where
  "run w =
     (case coded_records w of
        Inl e \<Rightarrow> (Raised e, [])
      | Inr records \<Rightarrow>
          (let out_path = path_join (script_dir w) ''coded_results.csv'' in
           case to_csv w out_path records of
             Some e \<Rightarrow> (Raised e, [To_csv out_path records])
           | None \<Rightarrow>
          (case print_saved w out_path of
             Some e \<Rightarrow> (Raised e, [To_csv out_path records, Print_saved out_path])
           | None \<Rightarrow>
          (case print_head w (take 5 records) of
             Some e \<Rightarrow>
               (Raised e,
                [To_csv out_path records, Print_saved out_path, Print_head (take 5 records)])
           | None \<Rightarrow>
               (Done,
                [To_csv out_path records, Print_saved out_path,
                 Print_head (take 5 records)])))))"

subsection \<open>Notions used in the statements\<close>

text \<open>
  A column is answered in a row when it passes both guards of the scoring loop: the table
  has the column, and the trimmed text of the cell is none of \<^verbatim>\<open>"nan"\<close>,
  \<^verbatim>\<open>"NaN"\<close>, \<^verbatim>\<open>""\<close>.
\<close>

definition answered :: "table \<Rightarrow> row \<Rightarrow> string \<Rightarrow> bool" where
  "answered df row col \<longleftrightarrow>
     col \<in> set (columns df) \<and> strip (py_str (row col)) \<notin> set [''nan'', ''NaN'', '''']"

definition flag :: "GroupConfig \<Rightarrow> row \<Rightarrow> string \<Rightarrow> int" where
  "flag cfg row col =
     int_of_bool (map_of (ANSWER_KEY cfg) col = Some (strip (py_str (row col))))"

definition score :: "GroupConfig \<Rightarrow> table \<Rightarrow> row \<Rightarrow> string list \<Rightarrow> int" where
  "score cfg df row cols = sum_list (map (flag cfg row) (filter (answered df row) cols))"

text \<open>The flag that a record holds for a column; no field counts as no contribution.\<close>

definition emitted :: "pydict \<Rightarrow> string \<Rightarrow> int" where
  "emitted rec col = (case map_of rec col of Some (VInt f) \<Rightarrow> f | _ \<Rightarrow> 0)"

text \<open>The keys of a record that are not flags.\<close>

definition reserved :: "string list" where
  "reserved = [''id'', ''group'', ''pre_score'', ''post_score'', ''gain''] @ map snd BG_COLS"

text \<open>
  A configuration is well formed when each scored column has an entry in the answer key
  and is not the name of another field of the record.
\<close>

definition wf_config :: "GroupConfig \<Rightarrow> bool" where
  "wf_config cfg \<longleftrightarrow>
     list_all (\<lambda>c. c \<in> set (map fst (ANSWER_KEY cfg)) \<and> c \<notin> set reserved)
       (PRE_COLS cfg @ POST_COLS cfg)"

definition initial_rec :: "GroupConfig \<Rightarrow> table \<Rightarrow> pyval \<Rightarrow> row \<Rightarrow> pydict" where
  "initial_rec cfg df idx row =
     bg_loop df row BG_COLS [(''id'', idx), (''group'', VStr (group cfg))]"

text \<open>The configuration in which a column is not scored in either phase.\<close>

definition without_col :: "GroupConfig \<Rightarrow> string \<Rightarrow> GroupConfig" where
  "without_col cfg col =
     cfg\<lparr> PRE_COLS := removeAll col (PRE_COLS cfg),
          POST_COLS := removeAll col (POST_COLS cfg) \<rparr>"

text \<open>A cell is blank when it is missing or holds white space only.\<close>

definition blank :: "cell \<Rightarrow> bool" where
  "blank v \<longleftrightarrow> (case v of CNaN \<Rightarrow> True | CStr s \<Rightarrow> strip s = [] | _ \<Rightarrow> False)"

text \<open>Two rows agree on the columns of a table.\<close>

definition same_cells :: "string list \<Rightarrow> row \<Rightarrow> row \<Rightarrow> bool" where
  "same_cells cols r1 r2 \<longleftrightarrow> list_all (\<lambda>c. r1 c = r2 c) cols"

subsection \<open>Small inputs\<close>

text \<open>
  A VR export with one participant who answers Q16 correctly, with spaces around the
  answer, leaves Q17 empty and gives a wrong answer to Q87; the table has no other scored
  column.
\<close>

definition VR_pilot :: table where
  "VR_pilot = \<lparr>
     columns = [''Q1'', ''Q16'', ''Q17'', ''Q87''],
     index = RangeIndex,
     rows = [\<lambda>c. if c = ''Q1'' then CStr ''Yes''
                  else if c = ''Q16'' then CStr ''  One entire pass over all training samples ''
                  else if c = ''Q87'' then CStr '' no idea ''
                  else CNaN] \<rparr>"

text \<open>
  A Video export with one participant whose pre-test answers are all those of the answer
  key and whose post-test cells are all empty.
\<close>

definition Video_pilot :: table where
  "Video_pilot = \<lparr>
     columns = PRE_COLS Video_config @ POST_COLS Video_config,
     index = RangeIndex,
     rows = [\<lambda>c. if c \<in> set (PRE_COLS Video_config)
                  then (case map_of (ANSWER_KEY Video_config) c of
                          Some k \<Rightarrow> CStr k | None \<Rightarrow> CNaN)
                  else CNaN] \<rparr>"



definition VR_pilot_dir :: world where
  "VR_pilot_dir = \<lparr>
     script_dir = ''/home/u/survey'',
     glob = (\<lambda>p. if p = ''/home/u/survey/*.csv''
                  then [''/home/u/survey/coded_old.csv'', ''/home/u/survey/VR_pilot.csv'']
                  else []),
     read_csv = (\<lambda>f. if f = ''/home/u/survey/VR_pilot.csv'' then Inr VR_pilot
                      else Inl ParserError),
     to_csv = (\<lambda>p records. None),
     print_saved = (\<lambda>p. None),
     print_head = (\<lambda>records. None) \<rparr>"

text \<open>
  The same VR export seen by another run: the script lies in a directory whose name is
  itself a glob pattern, so the export is found in the directory that the pattern
  matches, beside the output of an earlier run; the console cannot encode the notice. The
  row and the index differ from those of \<open>VR_pilot\<close> only outside the columns and the
  positions of the table.
\<close>

definition VR_pilot_again :: table where
  "VR_pilot_again = \<lparr>
     columns = [''Q1'', ''Q16'', ''Q17'', ''Q87''],
     index = (\<lambda>pos. if pos = 0 then VInt 0 else VStr ''not a position of the table''),
     rows = [\<lambda>c. if c = ''Q1'' then CStr ''Yes''
                  else if c = ''Q16'' then CStr ''  One entire pass over all training samples ''
                  else if c = ''Q87'' then CStr '' no idea ''
                  else if c = ''Q17'' then CNaN
                  else CStr ''not a cell of the table''] \<rparr>"

definition VR_pilot_dir_again :: world where
  "VR_pilot_dir_again = \<lparr>
     script_dir = ''/srv/run[1]'',
     glob = (\<lambda>p. if p = ''/srv/run[1]/*.csv''
                  then [''/srv/run1/coded_results.csv'', ''/srv/run1/VR_pilot.csv'']
                  else []),
     read_csv = (\<lambda>f. if f = ''/srv/run1/VR_pilot.csv'' then Inr VR_pilot_again
                      else Inl ParserError),
     to_csv = (\<lambda>p records. None),
     print_saved = (\<lambda>p. Some UnicodeEncodeError),
     print_head = (\<lambda>records. None) \<rparr>"

text \<open>
  A VR export whose data lines have one field more than the header, so that the first
  field is the index label of the row.
\<close>

definition VR_labelled :: table where
  "VR_labelled = \<lparr>
     columns = [''Q16'', ''Q87''],
     index = (\<lambda>pos. VCell (CStr (if pos = 0 then ''a'' else ''d''))),
     rows = [\<lambda>c. if c = ''Q16'' then CStr ''One entire pass over all training samples''
                  else CNaN,
             \<lambda>c. CNaN] \<rparr>"

text \<open>A VR export in which the paired questions Q16 and Q87 get the same answer.\<close>

definition VR_paired :: table where
  "VR_paired = \<lparr>
     columns = [''Q16'', ''Q87''],
     index = RangeIndex,
     rows = [\<lambda>c. if c = ''Q16'' then CStr ''One entire pass over all training samples''
                  else CStr ''  One entire pass over all training samples ''] \<rparr>"

section \<open>Properties\<close>

subsection \<open>Dictionaries and the scoring loop\<close>

lemma map_of_setitem: "map_of (setitem d k v) = (map_of d)(k \<mapsto> v)"
  by (induction d k v rule: setitem.induct) auto

lemma getint_setitem: "getint (setitem d k (VInt i)) k = Inr i"
  by (simp add: getint_def getitem_def map_of_setitem)

lemma score_loop_covered:
  assumes "set cols \<subseteq> fst ` set (ANSWER_KEY cfg)"
  shows "\<exists>rec'. score_loop cfg df row cols rec s = Inr (rec', s + score cfg df row cols) \<and>
           map_of rec' = (\<lambda>k. if k \<in> set cols \<and> answered df row k
                               then Some (VInt (flag cfg row k)) else map_of rec k)"
  using assms
proof (induction cols arbitrary: rec s)
  case Nil
  then show ?case by (simp add: score_def)
next
  case (Cons col cols)
  from Cons.prems have sub: "set cols \<subseteq> fst ` set (ANSWER_KEY cfg)" by simp
  show ?case
  proof (cases "answered df row col")
    case False
    from Cons.IH [OF sub, of rec s] obtain rec' where
      r: "score_loop cfg df row cols rec s = Inr (rec', s + score cfg df row cols)"
      and m: "map_of rec' = (\<lambda>k. if k \<in> set cols \<and> answered df row k
                               then Some (VInt (flag cfg row k)) else map_of rec k)"
      by blast
    have "score_loop cfg df row (col # cols) rec s = score_loop cfg df row cols rec s"
      using False by (auto simp: answered_def Let_def)
    moreover have "score cfg df row (col # cols) = score cfg df row cols"
      using False by (simp add: score_def)
    moreover have "map_of rec' = (\<lambda>k. if k \<in> set (col # cols) \<and> answered df row k
                               then Some (VInt (flag cfg row k)) else map_of rec k)"
      using False m by auto
    ultimately show ?thesis using r by simp
  next
    case True
    from Cons.prems obtain expected where e: "map_of (ANSWER_KEY cfg) col = Some expected"
      by (auto simp: weak_map_of_SomeI dest!: map_of_SomeD intro: map_of_SomeD) (metis domIff dom_map_of_conv_image_fst not_Some_eq image_eqI fst_conv)
    define f where "f = flag cfg row col"
    have fe: "int_of_bool (strip (py_str (row col)) = expected) = f"
      by (auto simp: f_def flag_def e int_of_bool_def)
    define rec1 where "rec1 = setitem rec col (VInt f)"
    from Cons.IH [OF sub, of rec1 "s + f"] obtain rec' where
      r: "score_loop cfg df row cols rec1 (s + f) = Inr (rec', s + f + score cfg df row cols)"
      and m: "map_of rec' = (\<lambda>k. if k \<in> set cols \<and> answered df row k
                               then Some (VInt (flag cfg row k)) else map_of rec1 k)"
      by blast
    have "score_loop cfg df row (col # cols) rec s = score_loop cfg df row cols rec1 (s + f)"
      using True e fe by (simp add: answered_def Let_def getitem_def getint_setitem rec1_def)
    moreover have "score cfg df row (col # cols) = f + score cfg df row cols"
      using True by (simp add: score_def f_def)
    moreover have "map_of rec' = (\<lambda>k. if k \<in> set (col # cols) \<and> answered df row k
                               then Some (VInt (flag cfg row k)) else map_of rec k)"
      using True m by (auto simp: rec1_def map_of_setitem f_def)
    ultimately show ?thesis using r by (simp add: add.assoc)
  qed
qed

subsection \<open>Both configurations are well formed\<close>

lemma wf_config_VR: "wf_config VR_config"
  by (simp add: wf_config_def VR_config_def reserved_def BG_COLS_def)

lemma wf_config_Video: "wf_config Video_config"
  by (simp add: wf_config_def Video_config_def reserved_def BG_COLS_def)

lemma wf_config_select: "wf_config (select_config file_name)"
  by (simp add: select_config_def wf_config_VR wf_config_Video)

subsection \<open>The record of one row\<close>

lemma map_of_bg_loop:
  "k \<notin> snd ` set items \<Longrightarrow> map_of (bg_loop df row items rec) k = map_of rec k"
  by (induction df row items rec rule: bg_loop.induct) (auto simp: map_of_setitem)

lemma wf_config_covered:
  assumes "wf_config cfg"
  shows "set (PRE_COLS cfg) \<subseteq> fst ` set (ANSWER_KEY cfg)"
    and "set (POST_COLS cfg) \<subseteq> fst ` set (ANSWER_KEY cfg)"
  using assms by (auto simp: wf_config_def list_all_iff)

lemma wf_config_reserved:
  assumes "wf_config cfg" and "c \<in> set (PRE_COLS cfg) \<union> set (POST_COLS cfg)"
  shows "c \<notin> set reserved"
  using assms by (auto simp: wf_config_def list_all_iff)

lemma initial_rec_scored:
  assumes "c \<notin> set reserved"
  shows "map_of (initial_rec cfg df idx row) c = None"
proof -
  from assms have "c \<notin> snd ` set BG_COLS" and "c \<noteq> ''id''" and "c \<noteq> ''group''"
    by (auto simp: reserved_def)
  then show ?thesis by (simp add: initial_rec_def map_of_bg_loop)
qed

lemma code_row_wf:
  assumes wf: "wf_config cfg"
  shows "\<exists>rec. code_row cfg df idx row = Inr rec \<and>
           map_of rec ''pre_score'' = Some (VInt (score cfg df row (PRE_COLS cfg))) \<and>
           map_of rec ''post_score'' = Some (VInt (score cfg df row (POST_COLS cfg))) \<and>
           map_of rec ''gain'' =
             Some (VInt (score cfg df row (POST_COLS cfg) - score cfg df row (PRE_COLS cfg))) \<and>
           (\<forall>c \<in> set (PRE_COLS cfg) \<union> set (POST_COLS cfg).
              map_of rec c =
                (if answered df row c then Some (VInt (flag cfg row c)) else None))"
proof -
  define rec0 where "rec0 = initial_rec cfg df idx row"
  define pre where "pre = score cfg df row (PRE_COLS cfg)"
  define post where "post = score cfg df row (POST_COLS cfg)"
  have res: "''pre_score'' \<notin> set (POST_COLS cfg)" "''post_score'' \<notin> set (POST_COLS cfg)"
    "''pre_score'' \<notin> set (PRE_COLS cfg)"
    using wf_config_reserved [OF wf] by (auto simp: reserved_def)
  from score_loop_covered [OF wf_config_covered(1) [OF wf], of df row rec0 0]
  obtain rec1 where
    r1: "score_loop cfg df row (PRE_COLS cfg) rec0 0 = Inr (rec1, pre)" and
    m1: "map_of rec1 = (\<lambda>k. if k \<in> set (PRE_COLS cfg) \<and> answered df row k
                             then Some (VInt (flag cfg row k)) else map_of rec0 k)"
    by (auto simp: pre_def)
  define rec2 where "rec2 = setitem rec1 ''pre_score'' (VInt pre)"
  from score_loop_covered [OF wf_config_covered(2) [OF wf], of df row rec2 0]
  obtain rec3 where
    r3: "score_loop cfg df row (POST_COLS cfg) rec2 0 = Inr (rec3, post)" and
    m3: "map_of rec3 = (\<lambda>k. if k \<in> set (POST_COLS cfg) \<and> answered df row k
                             then Some (VInt (flag cfg row k)) else map_of rec2 k)"
    by (auto simp: post_def)
  define rec4 where "rec4 = setitem rec3 ''post_score'' (VInt post)"
  define rec5 where "rec5 = setitem rec4 ''gain'' (VInt (post - pre))"
  have m2: "map_of rec2 = (map_of rec1)(''pre_score'' \<mapsto> VInt pre)"
    by (simp add: rec2_def map_of_setitem)
  have m4: "map_of rec4 = (map_of rec3)(''post_score'' \<mapsto> VInt post)"
    by (simp add: rec4_def map_of_setitem)
  have m5: "map_of rec5 = (map_of rec4)(''gain'' \<mapsto> VInt (post - pre))"
    by (simp add: rec5_def map_of_setitem)
  have g_post: "getint rec4 ''post_score'' = Inr post"
    by (simp add: rec4_def getint_setitem)
  have p4: "map_of rec4 ''pre_score'' = Some (VInt pre)"
    using res by (simp add: m4 m3 m2)
  then have g_pre: "getint rec4 ''pre_score'' = Inr pre"
    by (simp add: getint_def getitem_def)
  have run: "code_row cfg df idx row = Inr rec5"
    unfolding code_row_def initial_rec_def [symmetric] rec0_def [symmetric]
    by (simp add: r1 Let_def rec2_def [symmetric] r3 rec4_def [symmetric] g_post g_pre
        rec5_def)
  have f1: "map_of rec5 ''pre_score'' = Some (VInt pre)"
    by (simp add: m5 p4)
  have f2: "map_of rec5 ''post_score'' = Some (VInt post)"
    by (simp add: m5 m4)
  have f3: "map_of rec5 ''gain'' = Some (VInt (post - pre))"
    by (simp add: m5)
  have f4: "map_of rec5 c = (if answered df row c then Some (VInt (flag cfg row c)) else None)"
    if c: "c \<in> set (PRE_COLS cfg) \<union> set (POST_COLS cfg)" for c
  proof -
    from wf_config_reserved [OF wf c] have nr: "c \<notin> set reserved" .
    then have ne: "c \<noteq> ''pre_score''" "c \<noteq> ''post_score''" "c \<noteq> ''gain''"
      by (auto simp: reserved_def)
    have z: "map_of rec0 c = None"
      unfolding rec0_def by (rule initial_rec_scored [OF nr])
    show ?thesis
      using ne c z by (auto simp: m5 m4 m3 m2 m1)
  qed
  show ?thesis
    using run f1 f2 f3 f4 unfolding pre_def post_def by blast
qed

subsection \<open>The loop over the rows\<close>

lemma iterrows_loop_wf:
  assumes wf: "wf_config cfg"
  shows "\<exists>rs. iterrows_loop cfg df pos rws acc = Inr (acc @ rs) \<and> length rs = length rws \<and>
           (\<forall>j<length rws. code_row cfg df (index df (pos + j)) (rws ! j) = Inr (rs ! j))"
proof (induction rws arbitrary: pos acc)
  case Nil
  then show ?case by simp
next
  case (Cons row rest)
  from code_row_wf [OF wf, of df "index df pos" row] obtain rec where
    r: "code_row cfg df (index df pos) row = Inr rec" by blast
  from Cons.IH [of "Suc pos" "acc @ [rec]"] obtain rs where
    l: "iterrows_loop cfg df (Suc pos) rest (acc @ [rec]) = Inr ((acc @ [rec]) @ rs)" and
    n: "length rs = length rest" and
    a: "\<forall>j<length rest. code_row cfg df (index df (Suc pos + j)) (rest ! j) = Inr (rs ! j)"
    by blast
  have "iterrows_loop cfg df pos (row # rest) acc = Inr (acc @ (rec # rs))"
    using r l by simp
  moreover have "length (rec # rs) = length (row # rest)"
    using n by simp
  moreover have "code_row cfg df (index df (pos + j)) ((row # rest) ! j) = Inr ((rec # rs) ! j)"
    if "j < length (row # rest)" for j
  proof (cases j)
    case 0
    then show ?thesis using r by simp
  next
    case (Suc i)
    with that have "i < length rest" by simp
    with a have "code_row cfg df (index df (Suc pos + i)) (rest ! i) = Inr (rs ! i)" by blast
    then show ?thesis using Suc by simp
  qed
  ultimately show ?case by blast
qed

lemma code_table_wf:
  assumes wf: "wf_config cfg"
  shows "\<exists>records. code_table cfg df = Inr records \<and> length records = length (rows df) \<and>
           (\<forall>j<length (rows df).
              code_row cfg df (index df j) (rows df ! j) = Inr (records ! j))"
  using iterrows_loop_wf [OF wf, of df 0 "rows df" "[]"] by (simp add: code_table_def)

subsection \<open>Scores\<close>

lemma flag_range: "flag cfg row c = 0 \<or> flag cfg row c = 1"
  by (simp add: flag_def int_of_bool_def)

lemma score_nonneg: "0 \<le> score cfg df row cols"
  unfolding score_def
proof (induction cols)
  case Nil
  show ?case by simp
next
  case (Cons c cols)
  from flag_range [of cfg row c] Cons show ?case by auto
qed

lemma score_le_present:
  "score cfg df row cols \<le> int (length (filter (\<lambda>c. c \<in> set (columns df)) cols))"
  unfolding score_def
proof (induction cols)
  case Nil
  show ?case by simp
next
  case (Cons c cols)
  from flag_range [of cfg row c] Cons show ?case by (auto simp: answered_def)
qed

lemma score_emitted:
  assumes "\<forall>c\<in>set cols. map_of rec c =
             (if answered df row c then Some (VInt (flag cfg row c)) else None)"
  shows "score cfg df row cols = sum_list (map (emitted rec) cols)"
  using assms unfolding score_def
  by (induction cols) (auto simp: emitted_def)

subsection \<open>Columns without an answer\<close>

lemma score_loop_removeAll:
  assumes "\<not> answered df row col"
  shows "score_loop cfg df row (removeAll col cols) rec s = score_loop cfg df row cols rec s"
  using assms
proof (induction cols arbitrary: rec s)
  case Nil
  show ?case by simp
next
  case (Cons c cols)
  show ?case
  proof (cases "c = col")
    case True
    then have "score_loop cfg df row (c # cols) rec s = score_loop cfg df row cols rec s"
      using Cons.prems by (auto simp: answered_def Let_def)
    then show ?thesis using True Cons by simp
  next
    case False
    then show ?thesis using Cons
      by (simp add: Let_def split: sum.splits)
  qed
qed

lemma score_loop_key_cong:
  assumes "ANSWER_KEY cfg' = ANSWER_KEY cfg"
  shows "score_loop cfg' df row cols rec s = score_loop cfg df row cols rec s"
  by (induction cols arbitrary: rec s) (simp_all add: assms Let_def split: sum.splits)

lemma code_row_without_col:
  assumes "\<not> answered df row col"
  shows "code_row (without_col cfg col) df idx row = code_row cfg df idx row"
proof -
  have k: "ANSWER_KEY (without_col cfg col) = ANSWER_KEY cfg"
    by (simp add: without_col_def)
  show ?thesis
    unfolding code_row_def score_loop_key_cong [OF k]
    by (simp add: without_col_def score_loop_removeAll [OF assms] Let_def
        split: sum.splits prod.splits)
qed

subsection \<open>Prefixes and substrings\<close>

lemma startswith_iff: "startswith s p \<longleftrightarrow> (\<exists>rest. s = p @ rest)"
proof
  assume "startswith s p"
  then have "s = p @ drop (length p) s"
    unfolding startswith_def by (metis append_take_drop_id)
  then show "\<exists>rest. s = p @ rest" ..
next
  assume "\<exists>rest. s = p @ rest"
  then show "startswith s p" by (auto simp: startswith_def)
qed

lemma contains_iff: "contains s sub \<longleftrightarrow> (\<exists>pre post. s = pre @ sub @ post)"
proof (induction s)
  case Nil
  show ?case by auto
next
  case (Cons c s)
  show ?case
  proof
    assume "contains (c # s) sub"
    then consider "startswith (c # s) sub" | "contains s sub" by auto
    then show "\<exists>pre post. c # s = pre @ sub @ post"
    proof cases
      case 1
      then obtain rest where "c # s = sub @ rest" by (auto simp: startswith_iff)
      then have "c # s = [] @ sub @ rest" by simp
      then show ?thesis by blast
    next
      case 2
      with Cons obtain pre post where "s = pre @ sub @ post" by blast
      then have "c # s = (c # pre) @ sub @ post" by simp
      then show ?thesis by blast
    qed
  next
    assume "\<exists>pre post. c # s = pre @ sub @ post"
    then obtain pre post where e: "c # s = pre @ sub @ post" by blast
    show "contains (c # s) sub"
    proof (cases pre)
      case Nil
      with e have "startswith (c # s) sub" by (auto simp: startswith_iff)
      then show ?thesis by simp
    next
      case (Cons a pre')
      with e have "s = pre' @ sub @ post" by simp
      with Cons.IH have "contains s sub" by blast
      then show ?thesis by simp
    qed
  qed
qed

subsection \<open>Coded tables\<close>

lemma code_table_rows:
  assumes wf: "wf_config cfg"
  shows "\<exists>records. code_table cfg df = Inr records \<and> length records = length (rows df) \<and>
    (\<forall>j<length (rows df).
       code_row cfg df (index df j) (rows df ! j) = Inr (records ! j) \<and>
       map_of (records ! j) ''pre_score'' =
         Some (VInt (score cfg df (rows df ! j) (PRE_COLS cfg))) \<and>
       map_of (records ! j) ''post_score'' =
         Some (VInt (score cfg df (rows df ! j) (POST_COLS cfg))) \<and>
       map_of (records ! j) ''gain'' =
         Some (VInt (score cfg df (rows df ! j) (POST_COLS cfg)
                     - score cfg df (rows df ! j) (PRE_COLS cfg))) \<and>
       (\<forall>c \<in> set (PRE_COLS cfg) \<union> set (POST_COLS cfg).
          map_of (records ! j) c =
            (if answered df (rows df ! j) c
             then Some (VInt (flag cfg (rows df ! j) c)) else None)))"
proof -
  from code_table_wf [OF wf, of df] obtain records where
    t: "code_table cfg df = Inr records" and
    n: "length records = length (rows df)" and
    r: "\<forall>j<length (rows df). code_row cfg df (index df j) (rows df ! j) = Inr (records ! j)"
    by blast
  have "code_row cfg df (index df j) (rows df ! j) = Inr (records ! j) \<and>
       map_of (records ! j) ''pre_score'' =
         Some (VInt (score cfg df (rows df ! j) (PRE_COLS cfg))) \<and>
       map_of (records ! j) ''post_score'' =
         Some (VInt (score cfg df (rows df ! j) (POST_COLS cfg))) \<and>
       map_of (records ! j) ''gain'' =
         Some (VInt (score cfg df (rows df ! j) (POST_COLS cfg)
                     - score cfg df (rows df ! j) (PRE_COLS cfg))) \<and>
       (\<forall>c \<in> set (PRE_COLS cfg) \<union> set (POST_COLS cfg).
          map_of (records ! j) c =
            (if answered df (rows df ! j) c
             then Some (VInt (flag cfg (rows df ! j) c)) else None))"
    if j: "j < length (rows df)" for j
  proof -
    from r j have e: "code_row cfg df (index df j) (rows df ! j) = Inr (records ! j)" by blast
    from code_row_wf [OF wf, of df "index df j" "rows df ! j"] e show ?thesis by auto
  qed
  with t n show ?thesis by blast
qed

lemma flag_expected:
  assumes "getitem (ANSWER_KEY cfg) col = Inr expected"
  shows "flag cfg row col = (if strip (py_str (row col)) = expected then 1 else 0)"
  using assms by (auto simp: flag_def getitem_def int_of_bool_def split: option.splits)

lemma wf_config_getitem:
  assumes "wf_config cfg" and "c \<in> set (PRE_COLS cfg) \<union> set (POST_COLS cfg)"
  shows "\<exists>expected. getitem (ANSWER_KEY cfg) c = Inr expected"
proof -
  from assms have "c \<in> fst ` set (ANSWER_KEY cfg)"
    using wf_config_covered by blast
  then have "map_of (ANSWER_KEY cfg) c \<noteq> None"
    by (simp add: map_of_eq_None_iff)
  then show ?thesis by (auto simp: getitem_def)
qed

lemma VR_pilot_rows: "length (rows VR_pilot) = 1"
  by (simp add: VR_pilot_def)

lemma select_VR_pilot: "select_config ''VR_pilot.csv'' = VR_config"
  by (simp add: select_config_def startswith_def)

lemma select_Video_pilot: "select_config ''Video_pilot.csv'' = Video_config"
  by (simp add: select_config_def startswith_def)

text \<open>
  C1. For every row and every column of the pre-test or post-test list that the table has:
  when the trimmed text of the cell is not empty and not nan or NaN, the record holds a
  flag for the column, 1 when the trimmed text equals the expected string of the answer
  key and 0 otherwise. The score of each phase is the sum of the flags that the record
  holds for the columns of that phase.
\<close>

theorem scoring_flags_and_sums:
  "let cfg = select_config file_name in
   \<exists>records. code_table cfg df = Inr records \<and> length records = length (rows df) \<and>
     (\<forall>j<length (rows df).
        (\<forall>col\<in>set (PRE_COLS cfg @ POST_COLS cfg).
           col \<in> set (columns df) \<longrightarrow>
           strip (py_str ((rows df ! j) col)) \<notin> set [''nan'', ''NaN'', ''''] \<longrightarrow>
           (\<exists>expected. getitem (ANSWER_KEY cfg) col = Inr expected \<and>
              map_of (records ! j) col =
                Some (VInt (if strip (py_str ((rows df ! j) col)) = expected then 1 else 0)))) \<and>
        map_of (records ! j) ''pre_score'' =
          Some (VInt (sum_list (map (emitted (records ! j)) (PRE_COLS cfg)))) \<and>
        map_of (records ! j) ''post_score'' =
          Some (VInt (sum_list (map (emitted (records ! j)) (POST_COLS cfg)))))"
proof -
  define cfg where "cfg = select_config file_name"
  have wf: "wf_config cfg" unfolding cfg_def by (rule wf_config_select)
  from code_table_rows [OF wf, of df] obtain records where
    t: "code_table cfg df = Inr records" and
    n: "length records = length (rows df)" and
    r: "\<forall>j<length (rows df).
       map_of (records ! j) ''pre_score'' =
         Some (VInt (score cfg df (rows df ! j) (PRE_COLS cfg))) \<and>
       map_of (records ! j) ''post_score'' =
         Some (VInt (score cfg df (rows df ! j) (POST_COLS cfg))) \<and>
       (\<forall>c \<in> set (PRE_COLS cfg) \<union> set (POST_COLS cfg).
          map_of (records ! j) c =
            (if answered df (rows df ! j) c
             then Some (VInt (flag cfg (rows df ! j) c)) else None))"
    by blast
  have "(\<forall>col\<in>set (PRE_COLS cfg @ POST_COLS cfg).
           col \<in> set (columns df) \<longrightarrow>
           strip (py_str ((rows df ! j) col)) \<notin> set [''nan'', ''NaN'', ''''] \<longrightarrow>
           (\<exists>expected. getitem (ANSWER_KEY cfg) col = Inr expected \<and>
              map_of (records ! j) col =
                Some (VInt (if strip (py_str ((rows df ! j) col)) = expected then 1 else 0)))) \<and>
        map_of (records ! j) ''pre_score'' =
          Some (VInt (sum_list (map (emitted (records ! j)) (PRE_COLS cfg)))) \<and>
        map_of (records ! j) ''post_score'' =
          Some (VInt (sum_list (map (emitted (records ! j)) (POST_COLS cfg))))"
    if j: "j < length (rows df)" for j
  proof -
    let ?row = "rows df ! j" and ?rec = "records ! j"
    from r j have
      pre: "map_of ?rec ''pre_score'' = Some (VInt (score cfg df ?row (PRE_COLS cfg)))" and
      post: "map_of ?rec ''post_score'' = Some (VInt (score cfg df ?row (POST_COLS cfg)))" and
      fl: "\<forall>c \<in> set (PRE_COLS cfg) \<union> set (POST_COLS cfg).
             map_of ?rec c =
               (if answered df ?row c then Some (VInt (flag cfg ?row c)) else None)"
      by blast+
    have a: "\<exists>expected. getitem (ANSWER_KEY cfg) col = Inr expected \<and>
              map_of ?rec col =
                Some (VInt (if strip (py_str (?row col)) = expected then 1 else 0))"
      if c: "col \<in> set (PRE_COLS cfg @ POST_COLS cfg)" and
         p: "col \<in> set (columns df)" and
         b: "strip (py_str (?row col)) \<notin> set [''nan'', ''NaN'', '''']" for col
    proof -
      from c have c': "col \<in> set (PRE_COLS cfg) \<union> set (POST_COLS cfg)" by simp
      from wf_config_getitem [OF wf c'] obtain expected where
        g: "getitem (ANSWER_KEY cfg) col = Inr expected" by blast
      from p b have "answered df ?row col" by (simp add: answered_def)
      with fl c' have "map_of ?rec col = Some (VInt (flag cfg ?row col))" by simp
      with flag_expected [OF g, of ?row] g show ?thesis by simp
    qed
    have s1: "score cfg df ?row (PRE_COLS cfg) = sum_list (map (emitted ?rec) (PRE_COLS cfg))"
      by (rule score_emitted) (use fl in blast)
    have s2: "score cfg df ?row (POST_COLS cfg) = sum_list (map (emitted ?rec) (POST_COLS cfg))"
      by (rule score_emitted) (use fl in blast)
    from a pre post s1 s2 show ?thesis by metis
  qed
  with t n show ?thesis unfolding Let_def cfg_def [symmetric] by blast
qed

theorem scoring_flags_and_sums_witness:
  "\<exists>records. code_table (select_config ''VR_pilot.csv'') VR_pilot = Inr records \<and>
     map_of (records ! 0) ''Q16'' = Some (VInt 1) \<and>
     map_of (records ! 0) ''Q87'' = Some (VInt 0) \<and>
     map_of (records ! 0) ''pre_score'' =
       Some (VInt (sum_list (map (emitted (records ! 0)) (PRE_COLS VR_config))))"
proof -
  from scoring_flags_and_sums [of "''VR_pilot.csv''" VR_pilot] obtain records where
    t: "code_table (select_config ''VR_pilot.csv'') VR_pilot = Inr records" and
    r: "\<forall>j<length (rows VR_pilot).
        (\<forall>col\<in>set (PRE_COLS VR_config @ POST_COLS VR_config).
           col \<in> set (columns VR_pilot) \<longrightarrow>
           strip (py_str ((rows VR_pilot ! j) col)) \<notin> set [''nan'', ''NaN'', ''''] \<longrightarrow>
           (\<exists>expected. getitem (ANSWER_KEY VR_config) col = Inr expected \<and>
              map_of (records ! j) col =
                Some (VInt (if strip (py_str ((rows VR_pilot ! j) col)) = expected
                            then 1 else 0)))) \<and>
        map_of (records ! j) ''pre_score'' =
          Some (VInt (sum_list (map (emitted (records ! j)) (PRE_COLS VR_config))))"
    unfolding Let_def select_VR_pilot by blast
  have j: "0 < length (rows VR_pilot)" by (simp add: VR_pilot_def)
  have c16: "''Q16'' \<in> set (PRE_COLS VR_config @ POST_COLS VR_config)"
    and c87: "''Q87'' \<in> set (PRE_COLS VR_config @ POST_COLS VR_config)"
    by (simp_all add: VR_config_def)
  have p: "''Q16'' \<in> set (columns VR_pilot)" "''Q87'' \<in> set (columns VR_pilot)"
    by (simp_all add: VR_pilot_def)
  have a16: "strip (py_str ((rows VR_pilot ! 0) ''Q16'')) =
               ''One entire pass over all training samples''"
    and a87: "strip (py_str ((rows VR_pilot ! 0) ''Q87'')) = ''no idea''"
    by (simp_all add: VR_pilot_def strip_def isspace_def)
  have k16: "getitem (ANSWER_KEY VR_config) ''Q16'' =
               Inr ''One entire pass over all training samples''"
    and k87: "getitem (ANSWER_KEY VR_config) ''Q87'' =
               Inr ''One entire pass over all training samples''"
    by (simp_all add: VR_config_def getitem_def)
  from r j c16 p(1) a16 k16 have "map_of (records ! 0) ''Q16'' = Some (VInt 1)"
    by fastforce
  moreover from r j c87 p(2) a87 k87 have "map_of (records ! 0) ''Q87'' = Some (VInt 0)"
    by fastforce
  moreover from r j have "map_of (records ! 0) ''pre_score'' =
       Some (VInt (sum_list (map (emitted (records ! 0)) (PRE_COLS VR_config))))"
    by blast
  ultimately show ?thesis using t by blast
qed

text \<open>
  C2. In every record the gain field is the post_score field minus the pre_score field.
\<close>

theorem gain_is_post_minus_pre:
  "\<exists>records. code_table (select_config file_name) df = Inr records \<and>
     length records = length (rows df) \<and>
     (\<forall>j<length (rows df). \<exists>pre post.
        map_of (records ! j) ''pre_score'' = Some (VInt pre) \<and>
        map_of (records ! j) ''post_score'' = Some (VInt post) \<and>
        map_of (records ! j) ''gain'' = Some (VInt (post - pre)))"
proof -
  from code_table_rows [OF wf_config_select, of file_name df] obtain records where
    t: "code_table (select_config file_name) df = Inr records" and
    n: "length records = length (rows df)" and
    r: "\<forall>j<length (rows df).
       map_of (records ! j) ''pre_score'' =
         Some (VInt (score (select_config file_name) df (rows df ! j)
                       (PRE_COLS (select_config file_name)))) \<and>
       map_of (records ! j) ''post_score'' =
         Some (VInt (score (select_config file_name) df (rows df ! j)
                       (POST_COLS (select_config file_name)))) \<and>
       map_of (records ! j) ''gain'' =
         Some (VInt (score (select_config file_name) df (rows df ! j)
                       (POST_COLS (select_config file_name))
                     - score (select_config file_name) df (rows df ! j)
                       (PRE_COLS (select_config file_name))))"
    by blast
  from r have "\<forall>j<length (rows df). \<exists>pre post.
        map_of (records ! j) ''pre_score'' = Some (VInt pre) \<and>
        map_of (records ! j) ''post_score'' = Some (VInt post) \<and>
        map_of (records ! j) ''gain'' = Some (VInt (post - pre))"
    by blast
  with t n show ?thesis by blast
qed

theorem gain_is_post_minus_pre_witness:
  "\<exists>records pre post.
     code_table (select_config ''VR_pilot.csv'') VR_pilot = Inr records \<and>
     length records = 1 \<and>
     map_of (records ! 0) ''pre_score'' = Some (VInt pre) \<and>
     map_of (records ! 0) ''post_score'' = Some (VInt post) \<and>
     map_of (records ! 0) ''gain'' = Some (VInt (post - pre))"
proof -
  from gain_is_post_minus_pre [of "''VR_pilot.csv''" VR_pilot] obtain records where
    t: "code_table (select_config ''VR_pilot.csv'') VR_pilot = Inr records" and
    n: "length records = length (rows VR_pilot)" and
    r: "\<forall>j<length (rows VR_pilot). \<exists>pre post.
        map_of (records ! j) ''pre_score'' = Some (VInt pre) \<and>
        map_of (records ! j) ''post_score'' = Some (VInt post) \<and>
        map_of (records ! j) ''gain'' = Some (VInt (post - pre))"
    by blast
  have j: "0 < length (rows VR_pilot)" by (simp add: VR_pilot_rows)
  with r obtain pre post where
    "map_of (records ! 0) ''pre_score'' = Some (VInt pre)"
    "map_of (records ! 0) ''post_score'' = Some (VInt post)"
    "map_of (records ! 0) ''gain'' = Some (VInt (post - pre))"
    by blast
  with t n show ?thesis by (auto simp: VR_pilot_rows)
qed

text \<open>
  C3. In every record pre_score and post_score are integers that are not negative;
  pre_score is at most the number of pre-test columns that the table has, and post_score
  at most the number of post-test columns that the table has.
\<close>

theorem scores_bounded:
  "let cfg = select_config file_name in
   \<exists>records. code_table cfg df = Inr records \<and> length records = length (rows df) \<and>
     (\<forall>j<length (rows df). \<exists>pre post.
        map_of (records ! j) ''pre_score'' = Some (VInt pre) \<and>
        map_of (records ! j) ''post_score'' = Some (VInt post) \<and>
        0 \<le> pre \<and> pre \<le> int (length (filter (\<lambda>c. c \<in> set (columns df)) (PRE_COLS cfg))) \<and>
        0 \<le> post \<and> post \<le> int (length (filter (\<lambda>c. c \<in> set (columns df)) (POST_COLS cfg))))"
proof -
  define cfg where "cfg = select_config file_name"
  have wf: "wf_config cfg" unfolding cfg_def by (rule wf_config_select)
  from code_table_rows [OF wf, of df] obtain records where
    t: "code_table cfg df = Inr records" and
    n: "length records = length (rows df)" and
    r: "\<forall>j<length (rows df).
       map_of (records ! j) ''pre_score'' =
         Some (VInt (score cfg df (rows df ! j) (PRE_COLS cfg))) \<and>
       map_of (records ! j) ''post_score'' =
         Some (VInt (score cfg df (rows df ! j) (POST_COLS cfg)))"
    by blast
  have "\<exists>pre post.
        map_of (records ! j) ''pre_score'' = Some (VInt pre) \<and>
        map_of (records ! j) ''post_score'' = Some (VInt post) \<and>
        0 \<le> pre \<and> pre \<le> int (length (filter (\<lambda>c. c \<in> set (columns df)) (PRE_COLS cfg))) \<and>
        0 \<le> post \<and> post \<le> int (length (filter (\<lambda>c. c \<in> set (columns df)) (POST_COLS cfg)))"
    if j: "j < length (rows df)" for j
    using r j score_nonneg [of cfg df "rows df ! j"] score_le_present [of cfg df "rows df ! j"]
    by blast
  with t n show ?thesis unfolding Let_def cfg_def [symmetric] by blast
qed

theorem scores_bounded_witness:
  "\<exists>records pre post.
     code_table (select_config ''VR_pilot.csv'') VR_pilot = Inr records \<and>
     map_of (records ! 0) ''pre_score'' = Some (VInt pre) \<and>
     map_of (records ! 0) ''post_score'' = Some (VInt post) \<and>
     0 \<le> pre \<and> pre \<le> 2 \<and> 0 \<le> post \<and> post \<le> 1"
proof -
  have c: "int (length (filter (\<lambda>c. c \<in> set (columns VR_pilot)) (PRE_COLS VR_config))) = 2"
    "int (length (filter (\<lambda>c. c \<in> set (columns VR_pilot)) (POST_COLS VR_config))) = 1"
    by (simp_all add: VR_pilot_def VR_config_def)
  from scores_bounded [of "''VR_pilot.csv''" VR_pilot] obtain records where
    t: "code_table (select_config ''VR_pilot.csv'') VR_pilot = Inr records" and
    r: "\<forall>j<length (rows VR_pilot). \<exists>pre post.
        map_of (records ! j) ''pre_score'' = Some (VInt pre) \<and>
        map_of (records ! j) ''post_score'' = Some (VInt post) \<and>
        0 \<le> pre \<and> pre \<le> 2 \<and> 0 \<le> post \<and> post \<le> 1"
    unfolding Let_def select_VR_pilot c by blast
  have j: "0 < length (rows VR_pilot)" by (simp add: VR_pilot_rows)
  with r t show ?thesis by blast
qed

text \<open>
  C4. For every row and every scored column: when the table does not have the column, or
  the trimmed text of the cell is empty, nan or NaN, the record has no field for the
  column, and the record is the one that the code builds when the column is not scored at
  all, so the cell adds nothing to pre_score or post_score.
\<close>

theorem missing_answer_is_neutral:
  "let cfg = select_config file_name in
   \<exists>records. code_table cfg df = Inr records \<and> length records = length (rows df) \<and>
     (\<forall>j<length (rows df). \<forall>col\<in>set (PRE_COLS cfg @ POST_COLS cfg).
        col \<notin> set (columns df) \<or>
        strip (py_str ((rows df ! j) col)) \<in> set [''nan'', ''NaN'', ''''] \<longrightarrow>
        map_of (records ! j) col = None \<and>
        code_row (without_col cfg col) df (index df j) (rows df ! j) = Inr (records ! j))"
proof -
  define cfg where "cfg = select_config file_name"
  have wf: "wf_config cfg" unfolding cfg_def by (rule wf_config_select)
  from code_table_rows [OF wf, of df] obtain records where
    t: "code_table cfg df = Inr records" and
    n: "length records = length (rows df)" and
    r: "\<forall>j<length (rows df).
       code_row cfg df (index df j) (rows df ! j) = Inr (records ! j) \<and>
       (\<forall>c \<in> set (PRE_COLS cfg) \<union> set (POST_COLS cfg).
          map_of (records ! j) c =
            (if answered df (rows df ! j) c
             then Some (VInt (flag cfg (rows df ! j) c)) else None))"
    by blast
  have "map_of (records ! j) col = None \<and>
        code_row (without_col cfg col) df (index df j) (rows df ! j) = Inr (records ! j)"
    if j: "j < length (rows df)" and c: "col \<in> set (PRE_COLS cfg @ POST_COLS cfg)" and
      b: "col \<notin> set (columns df) \<or>
          strip (py_str ((rows df ! j) col)) \<in> set [''nan'', ''NaN'', '''']" for j col
  proof -
    from b have na: "\<not> answered df (rows df ! j) col" by (auto simp: answered_def)
    from c have c': "col \<in> set (PRE_COLS cfg) \<union> set (POST_COLS cfg)" by simp
    from r j c' na have "map_of (records ! j) col = None" by simp
    moreover from r j code_row_without_col [OF na, of cfg "index df j"]
    have "code_row (without_col cfg col) df (index df j) (rows df ! j) = Inr (records ! j)" by simp
    ultimately show ?thesis by blast
  qed
  with t n show ?thesis unfolding Let_def cfg_def [symmetric] by blast
qed

theorem missing_answer_is_neutral_witness:
  "\<exists>records. code_table (select_config ''VR_pilot.csv'') VR_pilot = Inr records \<and>
     ''Q17'' \<in> set (columns VR_pilot) \<and>
     strip (py_str ((rows VR_pilot ! 0) ''Q17'')) = ''nan'' \<and>
     map_of (records ! 0) ''Q17'' = None \<and>
     code_row (without_col VR_config ''Q17'') VR_pilot (index VR_pilot 0) (rows VR_pilot ! 0) = Inr (records ! 0) \<and>
     ''Q18'' \<notin> set (columns VR_pilot) \<and>
     map_of (records ! 0) ''Q18'' = None"
proof -
  from missing_answer_is_neutral [of "''VR_pilot.csv''" VR_pilot] obtain records where
    t: "code_table (select_config ''VR_pilot.csv'') VR_pilot = Inr records" and
    r: "\<forall>j<length (rows VR_pilot). \<forall>col\<in>set (PRE_COLS VR_config @ POST_COLS VR_config).
        col \<notin> set (columns VR_pilot) \<or>
        strip (py_str ((rows VR_pilot ! j) col)) \<in> set [''nan'', ''NaN'', ''''] \<longrightarrow>
        map_of (records ! j) col = None \<and>
        code_row (without_col VR_config col) VR_pilot (index VR_pilot j) (rows VR_pilot ! j)
          = Inr (records ! j)"
    unfolding Let_def select_VR_pilot by blast
  have j: "0 < length (rows VR_pilot)" by (simp add: VR_pilot_rows)
  have c: "''Q17'' \<in> set (PRE_COLS VR_config @ POST_COLS VR_config)"
    "''Q18'' \<in> set (PRE_COLS VR_config @ POST_COLS VR_config)"
    by (simp_all add: VR_config_def)
  have p: "''Q17'' \<in> set (columns VR_pilot)" "''Q18'' \<notin> set (columns VR_pilot)"
    by (simp_all add: VR_pilot_def)
  have a: "strip (py_str ((rows VR_pilot ! 0) ''Q17'')) = ''nan''"
    by (simp add: VR_pilot_def strip_def isspace_def)
  from r j c(1) a have
    "map_of (records ! 0) ''Q17'' = None \<and>
     code_row (without_col VR_config ''Q17'') VR_pilot (index VR_pilot 0) (rows VR_pilot ! 0) = Inr (records ! 0)"
    by fastforce
  moreover from r j c(2) p(2) have "map_of (records ! 0) ''Q18'' = None"
    by blast
  ultimately show ?thesis using t p a by blast
qed

text \<open>
  C5. The configuration is a function of the file name alone, with two values: a name in
  which the letters VR occur next to each other, in upper case, selects the VR
  configuration (label, pre-test columns, post-test columns, answer key); every other
  name selects the Video configuration.
\<close>

theorem group_from_file_name:
  "select_config file_name =
     (if \<exists>pre post. file_name = pre @ ''VR'' @ post then VR_config else Video_config)"
  by (simp add: select_config_def contains_iff)

theorem group_from_file_name_witness:
  "select_config ''Thesis Survey - VR_August 26.csv'' = VR_config \<and>
   group (select_config ''Thesis Survey - VR_August 26.csv'') = ''VR'' \<and>
   select_config ''Thesis Survey - vr_August 26.csv'' = Video_config \<and>
   group (select_config ''Thesis Survey - vr_August 26.csv'') = ''Video''"
proof -
  have a: "\<exists>pre post. ''Thesis Survey - VR_August 26.csv'' = pre @ ''VR'' @ post"
    unfolding contains_iff [symmetric] by (simp add: startswith_def)
  have b: "\<not> (\<exists>pre post. ''Thesis Survey - vr_August 26.csv'' = pre @ ''VR'' @ post)"
    unfolding contains_iff [symmetric] by (simp add: startswith_def)
  from a b group_from_file_name [of "''Thesis Survey - VR_August 26.csv''"]
    group_from_file_name [of "''Thesis Survey - vr_August 26.csv''"]
  show ?thesis by (simp add: VR_config_def Video_config_def)
qed

subsection \<open>Input discovery\<close>

lemma basename_not_coded:
  "f \<in> set (csv_files w) \<Longrightarrow> \<not> (\<exists>rest. basename f = ''coded_'' @ rest)"
  by (simp add: csv_files_def startswith_iff)

lemma coded_records_single:
  assumes "csv_files w = [p]" and "read_csv w p = Inr df"
  shows "coded_records w = code_table (select_config (basename p)) df"
  using assms by (simp add: coded_records_def)


lemma run_calls:
  assumes "coded_records w = Inr records"
  shows "\<exists>rest. snd (run w) =
           To_csv (path_join (script_dir w) ''coded_results.csv'') records # rest"
  using assms by (simp add: run_def Let_def split: option.splits)




lemma VR_labelled_coded:
  "code_table VR_config VR_labelled =
     Inr [[(''id'', VCell (CStr ''a'')), (''group'', VStr ''VR''), (''Q16'', VInt 1),
           (''pre_score'', VInt 1), (''post_score'', VInt 0), (''gain'', VInt (- 1))],
          [(''id'', VCell (CStr ''d'')), (''group'', VStr ''VR''),
           (''pre_score'', VInt 0), (''post_score'', VInt 0), (''gain'', VInt 0)]]"
  by (simp add: code_table_def VR_labelled_def code_row_def VR_config_def
      BG_COLS_def strip_def isspace_def getitem_def getint_def int_of_bool_def)



lemma csv_files_VR_pilot_dir: "csv_files VR_pilot_dir = [''/home/u/survey/VR_pilot.csv'']"
  by (simp add: csv_files_def VR_pilot_dir_def path_join_def basename_def startswith_def
      endswith_def)

lemma read_VR_pilot_dir: "read_csv VR_pilot_dir ''/home/u/survey/VR_pilot.csv'' = Inr VR_pilot"
  by (simp add: VR_pilot_dir_def)






subsection \<open>All correct before, nothing after\<close>

lemma score_all_correct:
  assumes "\<forall>c\<in>set cols. answered df row c \<and> flag cfg row c = 1"
  shows "score cfg df row cols = int (length cols)"
  using assms unfolding score_def by (induction cols) auto

lemma score_none_answered:
  assumes "\<forall>c\<in>set cols. \<not> answered df row c"
  shows "score cfg df row cols = 0"
  using assms unfolding score_def by (induction cols) auto

lemma strip_nan: "strip ''nan'' = ''nan''"
  by (simp add: strip_def isspace_def)

lemma blank_not_answered: "blank (row c) \<Longrightarrow> \<not> answered df row c"
  by (auto simp: blank_def answered_def strip_nan split: cell.splits)

lemma Video_pre_keys:
  "\<forall>c\<in>set (PRE_COLS Video_config). \<exists>k. map_of (ANSWER_KEY Video_config) c = Some k \<and>
      strip k = k \<and> k \<notin> set [''nan'', ''NaN'', '''']"
  by (simp add: Video_config_def strip_def isspace_def)

lemma select_not_VR:
  "\<not> (\<exists>pre post. file_name = pre @ ''VR'' @ post) \<Longrightarrow> select_config file_name = Video_config"
  by (simp add: select_config_def contains_iff)

text \<open>
  C7. For a file whose name does not contain VR, a row in which every pre-test cell holds
  the answer-key entry of its column and every post-test cell is blank gets pre_score 12,
  post_score 0 and gain -12.
\<close>

theorem video_all_correct_then_blank:
  assumes "\<not> (\<exists>pre post. file_name = pre @ ''VR'' @ post)"
    and "j < length (rows df)"
    and "\<forall>c\<in>set (PRE_COLS (select_config file_name)).
           c \<in> set (columns df) \<and>
           (\<exists>k. getitem (ANSWER_KEY (select_config file_name)) c = Inr k \<and>
                (rows df ! j) c = CStr k)"
    and "\<forall>c\<in>set (POST_COLS (select_config file_name)).
           c \<in> set (columns df) \<longrightarrow> blank ((rows df ! j) c)"
  shows "\<exists>records. code_table (select_config file_name) df = Inr records \<and>
           length records = length (rows df) \<and>
           map_of (records ! j) ''pre_score'' = Some (VInt 12) \<and>
           map_of (records ! j) ''post_score'' = Some (VInt 0) \<and>
           map_of (records ! j) ''gain'' = Some (VInt (- 12))"
proof -
  have sel: "select_config file_name = Video_config"
    using assms(1) by (rule select_not_VR)
  let ?row = "rows df ! j"
  have pre_ok: "answered df ?row c \<and> flag Video_config ?row c = 1"
    if c: "c \<in> set (PRE_COLS Video_config)" for c
  proof -
    from assms(3) c sel obtain k where
      p: "c \<in> set (columns df)" and
      g: "getitem (ANSWER_KEY Video_config) c = Inr k" and
      v: "?row c = CStr k"
      by auto
    from g have m: "map_of (ANSWER_KEY Video_config) c = Some k"
      by (auto simp: getitem_def split: option.splits)
    with Video_pre_keys c have s: "strip k = k" and nb: "k \<notin> set [''nan'', ''NaN'', '''']"
      by fastforce+
    from p v s nb have "answered df ?row c" by (simp add: answered_def)
    moreover from m v s have "flag Video_config ?row c = 1"
      by (simp add: flag_def int_of_bool_def)
    ultimately show ?thesis by blast
  qed
  have post_ok: "\<not> answered df ?row c" if c: "c \<in> set (POST_COLS Video_config)" for c
  proof (cases "c \<in> set (columns df)")
    case True
    with assms(4) c sel have "blank (?row c)" by simp
    then show ?thesis by (rule blank_not_answered)
  next
    case False
    then show ?thesis by (simp add: answered_def)
  qed
  have s1: "score Video_config df ?row (PRE_COLS Video_config) = 12"
    using score_all_correct [of "PRE_COLS Video_config" df ?row Video_config] pre_ok
    by (simp add: Video_config_def)
  have s2: "score Video_config df ?row (POST_COLS Video_config) = 0"
    using score_none_answered [of "POST_COLS Video_config" df ?row Video_config] post_ok
    by blast
  from code_table_rows [OF wf_config_Video, of df] obtain records where
    t: "code_table Video_config df = Inr records" and
    n: "length records = length (rows df)" and
    r: "\<forall>j<length (rows df).
       map_of (records ! j) ''pre_score'' =
         Some (VInt (score Video_config df (rows df ! j) (PRE_COLS Video_config))) \<and>
       map_of (records ! j) ''post_score'' =
         Some (VInt (score Video_config df (rows df ! j) (POST_COLS Video_config))) \<and>
       map_of (records ! j) ''gain'' =
         Some (VInt (score Video_config df (rows df ! j) (POST_COLS Video_config)
                     - score Video_config df (rows df ! j) (PRE_COLS Video_config)))"
    by blast
  from r assms(2) s1 s2 have
    "map_of (records ! j) ''pre_score'' = Some (VInt 12) \<and>
     map_of (records ! j) ''post_score'' = Some (VInt 0) \<and>
     map_of (records ! j) ''gain'' = Some (VInt (- 12))"
    by simp
  with t n sel show ?thesis by auto
qed

theorem video_all_correct_then_blank_witness:
  "\<not> (\<exists>pre post. ''Video_pilot.csv'' = pre @ ''VR'' @ post) \<and>
   0 < length (rows Video_pilot) \<and>
   (\<exists>records. code_table (select_config ''Video_pilot.csv'') Video_pilot = Inr records \<and>
      map_of (records ! 0) ''pre_score'' = Some (VInt 12) \<and>
      map_of (records ! 0) ''post_score'' = Some (VInt 0) \<and>
      map_of (records ! 0) ''gain'' = Some (VInt (- 12)))"
proof -
  have a: "\<not> (\<exists>pre post. ''Video_pilot.csv'' = pre @ ''VR'' @ post)"
    unfolding contains_iff [symmetric] by (simp add: startswith_def)
  have b: "0 < length (rows Video_pilot)" by (simp add: Video_pilot_def)
  have c: "\<forall>c\<in>set (PRE_COLS (select_config ''Video_pilot.csv'')).
           c \<in> set (columns Video_pilot) \<and>
           (\<exists>k. getitem (ANSWER_KEY (select_config ''Video_pilot.csv'')) c = Inr k \<and>
                (rows Video_pilot ! 0) c = CStr k)"
    unfolding select_Video_pilot
    by (simp add: Video_pilot_def Video_config_def getitem_def)
  have d: "\<forall>c\<in>set (POST_COLS (select_config ''Video_pilot.csv'')).
           c \<in> set (columns Video_pilot) \<longrightarrow> blank ((rows Video_pilot ! 0) c)"
    unfolding select_Video_pilot
    by (simp add: Video_pilot_def Video_config_def blank_def)
  from video_all_correct_then_blank [OF a b c d] a b show ?thesis by blast
qed

subsection \<open>Runs over the same input\<close>

lemma same_cells_iff: "same_cells cols r1 r2 \<longleftrightarrow> (\<forall>c\<in>set cols. r1 c = r2 c)"
  by (simp add: same_cells_def list_all_iff)

lemma bg_loop_same:
  assumes "columns df1 = columns df2" and "same_cells (columns df1) r1 r2"
  shows "bg_loop df1 r1 items rec = bg_loop df2 r2 items rec"
  using assms
  by (induction items arbitrary: rec) (auto simp: same_cells_iff)

lemma score_loop_same:
  assumes "columns df1 = columns df2" and "same_cells (columns df1) r1 r2"
  shows "score_loop cfg df1 r1 cols rec s = score_loop cfg df2 r2 cols rec s"
  using assms
proof (induction cols arbitrary: rec s)
  case Nil
  show ?case by simp
next
  case (Cons c cols)
  show ?case
  proof (cases "c \<in> set (columns df1)")
    case True
    with Cons.prems have "r1 c = r2 c" by (simp add: same_cells_iff)
    with True Cons show ?thesis
      by (simp add: Let_def split: sum.splits)
  next
    case False
    with Cons show ?thesis by simp
  qed
qed

lemma code_row_same:
  assumes "columns df1 = columns df2" and "same_cells (columns df1) r1 r2"
  shows "code_row cfg df1 idx r1 = code_row cfg df2 idx r2"
  unfolding code_row_def
  by (simp add: bg_loop_same [OF assms] score_loop_same [OF assms] Let_def
      split: sum.splits prod.splits)

lemma iterrows_loop_same:
  assumes "columns df1 = columns df2" and "list_all2 (same_cells (columns df1)) rs1 rs2"
    and "\<forall>j<length rs1. index df1 (pos + j) = index df2 (pos + j)"
  shows "iterrows_loop cfg df1 pos rs1 acc = iterrows_loop cfg df2 pos rs2 acc"
  using assms(2,3)
proof (induction rs1 rs2 arbitrary: pos acc rule: list_all2_induct)
  case Nil
  show ?case by simp
next
  case (Cons r1 rs1 r2 rs2)
  from Cons.prems have i0: "index df1 pos = index df2 pos" by force
  have rest: "\<forall>j<length rs1. index df1 (Suc pos + j) = index df2 (Suc pos + j)"
  proof (intro allI impI)
    fix j assume "j < length rs1"
    then have "Suc j < length (r1 # rs1)" by simp
    with Cons.prems have "index df1 (pos + Suc j) = index df2 (pos + Suc j)" by blast
    then show "index df1 (Suc pos + j) = index df2 (Suc pos + j)" by simp
  qed
  from code_row_same [OF assms(1) Cons.hyps(1)]
  have "code_row cfg df1 (index df2 pos) r1 = code_row cfg df2 (index df2 pos) r2" .
  with Cons.IH [OF rest] i0 show ?case by (simp split: sum.splits)
qed

lemma code_table_same:
  assumes "columns df1 = columns df2"
    and "list_all2 (same_cells (columns df1)) (rows df1) (rows df2)"
    and "\<forall>j<length (rows df1). index df1 j = index df2 j"
  shows "code_table cfg df1 = code_table cfg df2"
  unfolding code_table_def
  by (rule iterrows_loop_same [OF assms(1,2)]) (use assms(3) in simp)

text \<open>
  C8. Two runs that find a file of the same name and load the same table (the same
  columns, the same index labels and rows with the same cells, in the same order) build
  the same records and hand the same records to the call that writes the output,
  whatever else the two directories hold and whatever the calls after it do; each record
  is what the loop body computes from the configuration chosen by the name, the columns,
  the index label of the row and the row.
\<close>

theorem same_input_same_records:
  assumes "csv_files w1 = [p1]" and "csv_files w2 = [p2]"
    and "basename p1 = basename p2"
    and "read_csv w1 p1 = Inr df1" and "read_csv w2 p2 = Inr df2"
    and "columns df1 = columns df2"
    and "\<forall>j<length (rows df1). index df1 j = index df2 j"
    and "list_all2 (same_cells (columns df1)) (rows df1) (rows df2)"
  shows "\<exists>records.
           coded_records w1 = Inr records \<and> coded_records w2 = Inr records \<and>
           (\<exists>rest. snd (run w1) =
              To_csv (path_join (script_dir w1) ''coded_results.csv'') records # rest) \<and>
           (\<exists>rest. snd (run w2) =
              To_csv (path_join (script_dir w2) ''coded_results.csv'') records # rest) \<and>
           length records = length (rows df1) \<and>
           (\<forall>j<length (rows df1).
              code_row (select_config (basename p1)) df1 (index df1 j) (rows df1 ! j)
                = Inr (records ! j))"
proof -
  let ?cfg = "select_config (basename p1)"
  from code_table_wf [OF wf_config_select, of "basename p1" df1] obtain records where
    t1: "code_table ?cfg df1 = Inr records" and
    n: "length records = length (rows df1)" and
    r: "\<forall>j<length (rows df1).
          code_row ?cfg df1 (index df1 j) (rows df1 ! j) = Inr (records ! j)"
    by blast
  from code_table_same [OF assms(6) assms(8) assms(7), of ?cfg] t1
  have t2: "code_table ?cfg df2 = Inr records" by simp
  have c1: "coded_records w1 = Inr records"
    using coded_records_single [OF assms(1) assms(4)] t1 by simp
  have c2: "coded_records w2 = Inr records"
    using coded_records_single [OF assms(2) assms(5)] t2 assms(3) by simp
  from c1 c2 run_calls [OF c1] run_calls [OF c2] n r show ?thesis by blast
qed

lemma csv_files_VR_pilot_dir_again:
  "csv_files VR_pilot_dir_again = [''/srv/run1/VR_pilot.csv'']"
  by (simp add: csv_files_def VR_pilot_dir_again_def path_join_def basename_def startswith_def
      endswith_def)

theorem same_input_same_records_witness:
  "csv_files VR_pilot_dir = [''/home/u/survey/VR_pilot.csv''] \<and>
   csv_files VR_pilot_dir_again = [''/srv/run1/VR_pilot.csv''] \<and>
   VR_pilot \<noteq> VR_pilot_again \<and>
   (\<exists>records. coded_records VR_pilot_dir = Inr records \<and>
      coded_records VR_pilot_dir_again = Inr records \<and>
      length records = 1 \<and>
      (\<exists>rest. snd (run VR_pilot_dir) =
         To_csv ''/home/u/survey/coded_results.csv'' records # rest) \<and>
      (\<exists>rest. snd (run VR_pilot_dir_again) =
         To_csv ''/srv/run[1]/coded_results.csv'' records # rest))"
proof -
  have a: "csv_files VR_pilot_dir = [''/home/u/survey/VR_pilot.csv'']"
    by (rule csv_files_VR_pilot_dir)
  have b: "csv_files VR_pilot_dir_again = [''/srv/run1/VR_pilot.csv'']"
    by (rule csv_files_VR_pilot_dir_again)
  have n: "basename ''/home/u/survey/VR_pilot.csv'' = basename ''/srv/run1/VR_pilot.csv''"
    by (simp add: basename_def)
  have c: "read_csv VR_pilot_dir ''/home/u/survey/VR_pilot.csv'' = Inr VR_pilot"
    by (rule read_VR_pilot_dir)
  have d: "read_csv VR_pilot_dir_again ''/srv/run1/VR_pilot.csv'' = Inr VR_pilot_again"
    by (simp add: VR_pilot_dir_again_def)
  have e: "columns VR_pilot = columns VR_pilot_again"
    by (simp add: VR_pilot_def VR_pilot_again_def)
  have i: "\<forall>j<length (rows VR_pilot). index VR_pilot j = index VR_pilot_again j"
    by (simp add: VR_pilot_def VR_pilot_again_def RangeIndex_def)
  have g: "list_all2 (same_cells (columns VR_pilot)) (rows VR_pilot) (rows VR_pilot_again)"
    by (simp add: VR_pilot_def VR_pilot_again_def same_cells_def)
  have h: "VR_pilot \<noteq> VR_pilot_again"
  proof
    assume "VR_pilot = VR_pilot_again"
    then have "index VR_pilot 1 = index VR_pilot_again 1" by simp
    then show False by (simp add: VR_pilot_def VR_pilot_again_def RangeIndex_def)
  qed
  have o1: "path_join (script_dir VR_pilot_dir) ''coded_results.csv'' =
            ''/home/u/survey/coded_results.csv''"
    by (simp add: VR_pilot_dir_def path_join_def startswith_def endswith_def)
  have o2: "path_join (script_dir VR_pilot_dir_again) ''coded_results.csv'' =
            ''/srv/run[1]/coded_results.csv''"
    by (simp add: VR_pilot_dir_again_def path_join_def startswith_def endswith_def)
  from same_input_same_records [OF a b n c d e i g] a b h show ?thesis
    unfolding o1 o2 by (auto simp: VR_pilot_rows)
qed

text \<open>
  C9. In both configurations every pre-test and post-test column has an entry in the
  answer key, so the lookup in the scoring loop never raises: every row and every table
  is coded without an exception.
\<close>

theorem answer_key_lookup_never_fails:
  "let cfg = select_config file_name in
   (\<forall>col\<in>set (PRE_COLS cfg @ POST_COLS cfg).
      \<exists>expected. getitem (ANSWER_KEY cfg) col = Inr expected) \<and>
   (\<forall>df idx row. \<exists>rec. code_row cfg df idx row = Inr rec) \<and>
   (\<forall>df. \<exists>records. code_table cfg df = Inr records)"
proof -
  define cfg where "cfg = select_config file_name"
  have wf: "wf_config cfg" unfolding cfg_def by (rule wf_config_select)
  have 1: "\<forall>col\<in>set (PRE_COLS cfg @ POST_COLS cfg).
      \<exists>expected. getitem (ANSWER_KEY cfg) col = Inr expected"
    using wf_config_getitem [OF wf] by simp
  have 2: "\<forall>df idx row. \<exists>rec. code_row cfg df idx row = Inr rec"
    using code_row_wf [OF wf] by blast
  have 3: "\<forall>df. \<exists>records. code_table cfg df = Inr records"
    using code_table_wf [OF wf] by blast
  from 1 2 3 show ?thesis unfolding Let_def cfg_def [symmetric] by blast
qed

theorem answer_key_lookup_never_fails_witness:
  "''Q55.1'' \<in> set (PRE_COLS (select_config ''Video_pilot.csv'')) \<and>
   getitem (ANSWER_KEY (select_config ''Video_pilot.csv'')) ''Q55.1'' =
     Inr ''Bias is learned during training like weights'' \<and>
   (\<exists>records. code_table (select_config ''Video_pilot.csv'') Video_pilot = Inr records)"
proof -
  have a: "''Q55.1'' \<in> set (PRE_COLS (select_config ''Video_pilot.csv''))"
    unfolding select_Video_pilot by (simp add: Video_config_def)
  then have b: "''Q55.1'' \<in> set (PRE_COLS (select_config ''Video_pilot.csv'') @
                                   POST_COLS (select_config ''Video_pilot.csv''))"
    by simp
  from answer_key_lookup_never_fails [of "''Video_pilot.csv''"] b obtain expected where
    g: "getitem (ANSWER_KEY (select_config ''Video_pilot.csv'')) ''Q55.1'' = Inr expected"
    unfolding Let_def by blast
  then have "expected = ''Bias is learned during training like weights''"
    unfolding select_Video_pilot by (simp add: Video_config_def getitem_def)
  with g have c: "getitem (ANSWER_KEY (select_config ''Video_pilot.csv'')) ''Q55.1'' =
     Inr ''Bias is learned during training like weights''" by simp
  from answer_key_lookup_never_fails [of "''Video_pilot.csv''"]
  have "\<exists>records. code_table (select_config ''Video_pilot.csv'') Video_pilot = Inr records"
    unfolding Let_def by blast
  with a c show ?thesis by blast
qed

subsection \<open>Paired questions\<close>

lemma VR_paired_keys:
  "map (map_of (ANSWER_KEY VR_config)) (PRE_COLS VR_config) =
   map (map_of (ANSWER_KEY VR_config)) (POST_COLS VR_config)"
  by (simp add: VR_config_def)

lemma Video_paired_keys:
  "map (map_of (ANSWER_KEY Video_config)) (PRE_COLS Video_config) =
   map (map_of (ANSWER_KEY Video_config)) (POST_COLS Video_config)"
  by (simp add: Video_config_def)

lemma select_paired_keys:
  "map (map_of (ANSWER_KEY (select_config file_name))) (PRE_COLS (select_config file_name)) =
   map (map_of (ANSWER_KEY (select_config file_name))) (POST_COLS (select_config file_name))"
  by (simp add: select_config_def VR_paired_keys Video_paired_keys)

lemma paired_key_nth:
  assumes "map (map_of (ANSWER_KEY cfg)) (PRE_COLS cfg) =
           map (map_of (ANSWER_KEY cfg)) (POST_COLS cfg)"
    and "i < length (PRE_COLS cfg)"
  shows "length (PRE_COLS cfg) = length (POST_COLS cfg)"
    and "map_of (ANSWER_KEY cfg) (PRE_COLS cfg ! i) = map_of (ANSWER_KEY cfg) (POST_COLS cfg ! i)"
proof -
  from assms(1) show n: "length (PRE_COLS cfg) = length (POST_COLS cfg)"
    by (rule map_eq_imp_length_eq)
  from assms(1) have
    "map (map_of (ANSWER_KEY cfg)) (PRE_COLS cfg) ! i =
     map (map_of (ANSWER_KEY cfg)) (POST_COLS cfg) ! i" by simp
  with assms(2) n show
    "map_of (ANSWER_KEY cfg) (PRE_COLS cfg ! i) = map_of (ANSWER_KEY cfg) (POST_COLS cfg ! i)"
    by simp
qed

text \<open>
  C10. In both configurations the two column lists have the same length and, position by
  position, the pre-test column and the post-test column have the same expected answer.
  So a row that gives the same trimmed answer, not blank, to the two questions of a pair,
  with both columns in the table, gets the same flag for both.
\<close>

theorem paired_questions_equal_flags:
  "let cfg = select_config file_name in
   length (PRE_COLS cfg) = length (POST_COLS cfg) \<and>
   (\<forall>i<length (PRE_COLS cfg).
      \<exists>expected. getitem (ANSWER_KEY cfg) (PRE_COLS cfg ! i) = Inr expected \<and>
                 getitem (ANSWER_KEY cfg) (POST_COLS cfg ! i) = Inr expected) \<and>
   (\<exists>records. code_table cfg df = Inr records \<and> length records = length (rows df) \<and>
      (\<forall>j<length (rows df). \<forall>i<length (PRE_COLS cfg).
         PRE_COLS cfg ! i \<in> set (columns df) \<longrightarrow>
         POST_COLS cfg ! i \<in> set (columns df) \<longrightarrow>
         strip (py_str ((rows df ! j) (PRE_COLS cfg ! i))) =
           strip (py_str ((rows df ! j) (POST_COLS cfg ! i))) \<longrightarrow>
         strip (py_str ((rows df ! j) (PRE_COLS cfg ! i))) \<notin> set [''nan'', ''NaN'', ''''] \<longrightarrow>
         (\<exists>f. map_of (records ! j) (PRE_COLS cfg ! i) = Some (VInt f) \<and>
              map_of (records ! j) (POST_COLS cfg ! i) = Some (VInt f))))"
proof -
  define cfg where "cfg = select_config file_name"
  have wf: "wf_config cfg" unfolding cfg_def by (rule wf_config_select)
  have pk: "map (map_of (ANSWER_KEY cfg)) (PRE_COLS cfg) =
            map (map_of (ANSWER_KEY cfg)) (POST_COLS cfg)"
    unfolding cfg_def by (rule select_paired_keys)
  from pk have n: "length (PRE_COLS cfg) = length (POST_COLS cfg)"
    by (rule map_eq_imp_length_eq)
  have keys: "\<exists>expected. getitem (ANSWER_KEY cfg) (PRE_COLS cfg ! i) = Inr expected \<and>
                 getitem (ANSWER_KEY cfg) (POST_COLS cfg ! i) = Inr expected"
    if i: "i < length (PRE_COLS cfg)" for i
  proof -
    from i have "PRE_COLS cfg ! i \<in> set (PRE_COLS cfg) \<union> set (POST_COLS cfg)" by simp
    from wf_config_getitem [OF wf this] obtain expected where
      g: "getitem (ANSWER_KEY cfg) (PRE_COLS cfg ! i) = Inr expected" by blast
    from paired_key_nth(2) [OF pk i] g
    have "getitem (ANSWER_KEY cfg) (POST_COLS cfg ! i) = Inr expected"
      by (auto simp: getitem_def split: option.splits)
    with g show ?thesis by blast
  qed
  from code_table_rows [OF wf, of df] obtain records where
    t: "code_table cfg df = Inr records" and
    m: "length records = length (rows df)" and
    r: "\<forall>j<length (rows df).
       (\<forall>c \<in> set (PRE_COLS cfg) \<union> set (POST_COLS cfg).
          map_of (records ! j) c =
            (if answered df (rows df ! j) c
             then Some (VInt (flag cfg (rows df ! j) c)) else None))"
    by blast
  have flags: "\<exists>f. map_of (records ! j) (PRE_COLS cfg ! i) = Some (VInt f) \<and>
              map_of (records ! j) (POST_COLS cfg ! i) = Some (VInt f)"
    if j: "j < length (rows df)" and i: "i < length (PRE_COLS cfg)" and
      p1: "PRE_COLS cfg ! i \<in> set (columns df)" and
      p2: "POST_COLS cfg ! i \<in> set (columns df)" and
      same: "strip (py_str ((rows df ! j) (PRE_COLS cfg ! i))) =
           strip (py_str ((rows df ! j) (POST_COLS cfg ! i)))" and
      nb: "strip (py_str ((rows df ! j) (PRE_COLS cfg ! i))) \<notin> set [''nan'', ''NaN'', '''']"
    for j i
  proof -
    let ?row = "rows df ! j"
    from i n have c1: "PRE_COLS cfg ! i \<in> set (PRE_COLS cfg) \<union> set (POST_COLS cfg)"
      and c2: "POST_COLS cfg ! i \<in> set (PRE_COLS cfg) \<union> set (POST_COLS cfg)"
      by simp_all
    from p1 nb have a1: "answered df ?row (PRE_COLS cfg ! i)" by (simp add: answered_def)
    from p2 nb same have a2: "answered df ?row (POST_COLS cfg ! i)" by (simp add: answered_def)
    from paired_key_nth(2) [OF pk i] same
    have fe: "flag cfg ?row (PRE_COLS cfg ! i) = flag cfg ?row (POST_COLS cfg ! i)"
      by (simp add: flag_def)
    from r j c1 a1 have
      "map_of (records ! j) (PRE_COLS cfg ! i) = Some (VInt (flag cfg ?row (PRE_COLS cfg ! i)))"
      by simp
    moreover from r j c2 a2 have
      "map_of (records ! j) (POST_COLS cfg ! i) = Some (VInt (flag cfg ?row (POST_COLS cfg ! i)))"
      by simp
    ultimately show ?thesis using fe by simp
  qed
  from n keys t m flags show ?thesis unfolding Let_def cfg_def [symmetric] by blast
qed

theorem paired_questions_equal_flags_witness:
  "PRE_COLS VR_config ! 0 = ''Q16'' \<and> POST_COLS VR_config ! 0 = ''Q87'' \<and>
   (\<exists>expected. getitem (ANSWER_KEY VR_config) ''Q16'' = Inr expected \<and>
               getitem (ANSWER_KEY VR_config) ''Q87'' = Inr expected) \<and>
   (\<exists>records f. code_table (select_config ''VR_pilot.csv'') VR_paired = Inr records \<and>
      map_of (records ! 0) ''Q16'' = Some (VInt f) \<and>
      map_of (records ! 0) ''Q87'' = Some (VInt f))"
proof -
  have c: "PRE_COLS VR_config ! 0 = ''Q16''" "POST_COLS VR_config ! 0 = ''Q87''"
    by (simp_all add: VR_config_def)
  have i: "0 < length (PRE_COLS VR_config)" by (simp add: VR_config_def)
  have j: "0 < length (rows VR_paired)" by (simp add: VR_paired_def)
  have p: "''Q16'' \<in> set (columns VR_paired)" "''Q87'' \<in> set (columns VR_paired)"
    by (simp_all add: VR_paired_def)
  have a: "strip (py_str ((rows VR_paired ! 0) ''Q16'')) =
           ''One entire pass over all training samples''"
    "strip (py_str ((rows VR_paired ! 0) ''Q87'')) =
           ''One entire pass over all training samples''"
    by (simp_all add: VR_paired_def strip_def isspace_def)
  have nb: "strip (py_str ((rows VR_paired ! 0) ''Q16'')) \<notin> set [''nan'', ''NaN'', '''']"
    unfolding a by simp
  from paired_questions_equal_flags [of "''VR_pilot.csv''" VR_paired]
  have k: "\<forall>i<length (PRE_COLS VR_config).
      \<exists>expected. getitem (ANSWER_KEY VR_config) (PRE_COLS VR_config ! i) = Inr expected \<and>
                 getitem (ANSWER_KEY VR_config) (POST_COLS VR_config ! i) = Inr expected"
    unfolding Let_def select_VR_pilot by blast
  from k i have k0: "\<exists>expected. getitem (ANSWER_KEY VR_config) ''Q16'' = Inr expected \<and>
               getitem (ANSWER_KEY VR_config) ''Q87'' = Inr expected"
    unfolding c [symmetric] by blast
  from paired_questions_equal_flags [of "''VR_pilot.csv''" VR_paired] obtain records where
    t: "code_table (select_config ''VR_pilot.csv'') VR_paired = Inr records" and
    r: "\<forall>j<length (rows VR_paired). \<forall>i<length (PRE_COLS VR_config).
         PRE_COLS VR_config ! i \<in> set (columns VR_paired) \<longrightarrow>
         POST_COLS VR_config ! i \<in> set (columns VR_paired) \<longrightarrow>
         strip (py_str ((rows VR_paired ! j) (PRE_COLS VR_config ! i))) =
           strip (py_str ((rows VR_paired ! j) (POST_COLS VR_config ! i))) \<longrightarrow>
         strip (py_str ((rows VR_paired ! j) (PRE_COLS VR_config ! i)))
           \<notin> set [''nan'', ''NaN'', ''''] \<longrightarrow>
         (\<exists>f. map_of (records ! j) (PRE_COLS VR_config ! i) = Some (VInt f) \<and>
              map_of (records ! j) (POST_COLS VR_config ! i) = Some (VInt f))"
    unfolding Let_def select_VR_pilot by blast
  from r j i have
    "PRE_COLS VR_config ! 0 \<in> set (columns VR_paired) \<longrightarrow>
     POST_COLS VR_config ! 0 \<in> set (columns VR_paired) \<longrightarrow>
     strip (py_str ((rows VR_paired ! 0) (PRE_COLS VR_config ! 0))) =
       strip (py_str ((rows VR_paired ! 0) (POST_COLS VR_config ! 0))) \<longrightarrow>
     strip (py_str ((rows VR_paired ! 0) (PRE_COLS VR_config ! 0)))
       \<notin> set [''nan'', ''NaN'', ''''] \<longrightarrow>
     (\<exists>f. map_of (records ! 0) (PRE_COLS VR_config ! 0) = Some (VInt f) \<and>
          map_of (records ! 0) (POST_COLS VR_config ! 0) = Some (VInt f))"
    by blast
  then have "\<exists>f. map_of (records ! 0) ''Q16'' = Some (VInt f) \<and>
          map_of (records ! 0) ''Q87'' = Some (VInt f)"
    unfolding c using p a nb by simp
  with t c k0 show ?thesis by blast
qed

end
